theory Spec2Isabelle
  imports Main "HOL-Library.Sublist" "HOL-Library.AList" "HOL-Library.Multiset"
begin

section \<open>The archive analyzer of loc-counter\<close>

text \<open>
  The library \<^verbatim>\<open>archive-analyzer\<close> extracts an uploaded zip archive into a temporary
  directory, walks the directory, and either lists the extensions of its text files
  (\<^verbatim>\<open>scanExtensionsFromArchive\<close>) or counts their lines (\<^verbatim>\<open>countLinesFromArchive\<close>).

  JavaScript strings are modelled as \<^typ>\<open>string\<close>, file contents as the list of their
  bytes, which is \<^typ>\<open>string\<close> as well, and JavaScript numbers, which here only count
  files and lines, as natural numbers. The functions of Node's \<^verbatim>\<open>path\<close> module are
  modelled as Node defines them on a POSIX host (\<^verbatim>\<open>path.posix\<close>), on the segments of a
  path; the part of \<^verbatim>\<open>path.win32\<close> that the reported paths need is at the end. What the
  program gets from outside (the temporary directory of the host, the name that
  \<^verbatim>\<open>mkdtemp\<close> picks, the working directory, read failures, a failing removal, the
  collation of \<^verbatim>\<open>localeCompare\<close>) is a field of the record \<open>env\<close>. An exception is a
  value: every function that can throw returns \<open>error + 'a\<close>, and a function that changes the
  file system returns the new file system with it.
\<close>

subsection \<open>Strings\<close>

fun split_on :: "char \<Rightarrow> string \<Rightarrow> string list" where
  "split_on c [] = [[]]"
| "split_on c (x # xs) =
     (if x = c then [] # split_on c xs
      else (case split_on c xs of [] \<Rightarrow> [[x]] | s # ss \<Rightarrow> (x # s) # ss))"

fun join_with :: "string \<Rightarrow> string list \<Rightarrow> string" where
  "join_with sep [] = []"
| "join_with sep [s] = s"
| "join_with sep (s # t # ss) = s @ sep @ join_with sep (t # ss)"

text \<open>\<^verbatim>\<open>String.prototype.toLowerCase\<close>, on the ASCII letters.\<close>

definition lower_char :: "char \<Rightarrow> char" where
  "lower_char c =
     (case map_of (zip ''ABCDEFGHIJKLMNOPQRSTUVWXYZ'' ''abcdefghijklmnopqrstuvwxyz'') c of
        None \<Rightarrow> c
      | Some l \<Rightarrow> l)"

definition toLowerCase :: "string \<Rightarrow> string" where
  "toLowerCase s = map lower_char s"

subsection \<open>Node's path module (POSIX)\<close>

text \<open>
  \<^verbatim>\<open>normalizeString(path, allowAboveRoot)\<close> reads the path segment by segment: an empty
  segment and \<^verbatim>\<open>.\<close> are dropped, \<^verbatim>\<open>..\<close> removes the last segment kept unless there is
  none or it is \<^verbatim>\<open>..\<close> itself, in which case \<^verbatim>\<open>..\<close> is kept when \<open>allowAboveRoot\<close> holds.
\<close>

definition normStep :: "bool \<Rightarrow> string list \<Rightarrow> string \<Rightarrow> string list" where
  "normStep allowAboveRoot res seg =
     (if seg = [] \<or> seg = ''.'' then res
      else if seg = ''..'' then
        (if res \<noteq> [] \<and> last res \<noteq> ''..'' then butlast res
         else if allowAboveRoot then res @ [''..''] else res)
      else res @ [seg])"

definition normSegs :: "bool \<Rightarrow> string list \<Rightarrow> string list" where
  "normSegs allowAboveRoot segs = foldl (normStep allowAboveRoot) [] segs"

definition normalizeString :: "string \<Rightarrow> bool \<Rightarrow> string" where
  "normalizeString p allowAboveRoot =
     join_with ''/'' (normSegs allowAboveRoot (split_on CHR ''/'' p))"

definition path_isAbsolute :: "string \<Rightarrow> bool" where
  "path_isAbsolute p = (p \<noteq> [] \<and> hd p = CHR ''/'')"

definition path_normalize :: "string \<Rightarrow> string" where
  "path_normalize p =
     (if p = [] then ''.''
      else
        let isAbsolute = (hd p = CHR ''/'');
            trailingSeparator = (last p = CHR ''/'');
            q = normalizeString p (\<not> isAbsolute)
        in if q = [] then (if isAbsolute then ''/'' else if trailingSeparator then ''./'' else ''.'')
           else (let q' = (if trailingSeparator then q @ ''/'' else q)
                 in if isAbsolute then ''/'' @ q' else q'))"

definition path_join :: "string list \<Rightarrow> string" where
  "path_join args =
     (let parts = filter (\<lambda>arg. arg \<noteq> []) args
      in if parts = [] then ''.'' else path_normalize (join_with ''/'' parts))"

text \<open>
  \<^verbatim>\<open>path.dirname\<close>: trailing separators are skipped, then the last segment and the
  separator before it are cut off; the first character is never looked at as a separator.
\<close>

definition path_dirname :: "string \<Rightarrow> string" where
  "path_dirname p =
     (if p = [] then ''.''
      else
        let hasRoot = (hd p = CHR ''/'');
            r = dropWhile (\<lambda>c. c \<noteq> CHR ''/'') (dropWhile (\<lambda>c. c = CHR ''/'') (rev (tl p)))
        in if r = [] then (if hasRoot then ''/'' else ''.'')
           else if hasRoot \<and> tl r = [] then ''//''
           else hd p # rev (tl r))"

definition path_basename :: "string \<Rightarrow> string" where
  "path_basename p =
     rev (takeWhile (\<lambda>c. c \<noteq> CHR ''/'') (dropWhile (\<lambda>c. c = CHR ''/'') (rev p)))"

text \<open>
  \<^verbatim>\<open>path.extname\<close>: from the last dot of the last segment to its end; empty when there
  is no dot, when the last dot is the first character of the segment, and for \<^verbatim>\<open>..\<close>.
\<close>

definition path_extname :: "string \<Rightarrow> string" where
  "path_extname p =
     (let b = path_basename p;
          e = rev (takeWhile (\<lambda>c. c \<noteq> CHR ''.'') (rev b))
      in if CHR ''.'' \<notin> set b \<or> length b = Suc (length e) \<or> b = ''..'' then []
         else CHR ''.'' # e)"

text \<open>\<^verbatim>\<open>path.resolve\<close> of one path, against the working directory \<open>cwd\<close> of the process.\<close>

definition path_resolve :: "string \<Rightarrow> string \<Rightarrow> string" where
  "path_resolve cwd p =
     (let rp = (if p = [] then [] else p @ ''/'');
          (resolvedPath, resolvedAbsolute) =
            (if path_isAbsolute p then (rp, True)
             else if cwd = [] then (rp, False)
             else (cwd @ ''/'' @ rp, path_isAbsolute cwd));
          r = normalizeString resolvedPath (\<not> resolvedAbsolute)
      in if resolvedAbsolute then ''/'' @ r else if r \<noteq> [] then r else ''.'')"

text \<open>The segments of a resolved path.\<close>

definition segments :: "string \<Rightarrow> string list" where
  "segments p = filter (\<lambda>s. s \<noteq> []) (split_on CHR ''/'' p)"

fun drop_common :: "string list \<Rightarrow> string list \<Rightarrow> string list \<times> string list" where
  "drop_common (x # xs) (y # ys) = (if x = y then drop_common xs ys else (x # xs, y # ys))"
| "drop_common xs ys = (xs, ys)"

text \<open>
  \<^verbatim>\<open>path.relative(from, to)\<close>: both paths are resolved, their common leading segments are
  dropped, and the result climbs out of what is left of \<open>from\<close> and descends into what is
  left of \<open>to\<close>.
\<close>

definition path_relative :: "string \<Rightarrow> string \<Rightarrow> string \<Rightarrow> string" where
  "path_relative cwd from to =
     (if from = to then []
      else
        let f = path_resolve cwd from; t = path_resolve cwd to
        in if f = t then []
           else (let (fs, ts) = drop_common (segments f) (segments t)
                 in join_with ''/'' (map (\<lambda>_. ''..'') fs @ ts)))"

subsection \<open>The file system\<close>

text \<open>
  The file system is a tree: a file with its bytes, or a directory with its entries in the
  order \<^verbatim>\<open>readdir\<close> lists them. A path string names the node that its resolved segments
  lead to from the root.
\<close>

datatype node = File string | Dir "(string \<times> node) list"

fun lookup :: "node \<Rightarrow> string list \<Rightarrow> node option" where
  "lookup n [] = Some n"
| "lookup (File _) (s # ss) = None"
| "lookup (Dir es) (s # ss) = (case map_of es s of None \<Rightarrow> None | Some c \<Rightarrow> lookup c ss)"

text \<open>
  \<^verbatim>\<open>mkdir\<close> with \<^verbatim>\<open>recursive: true\<close>: missing directories are created along the way, a
  directory that exists is left as it is, a file on the way or at the end is an error.
\<close>

fun mkdir_p :: "string list \<Rightarrow> node \<Rightarrow> node option" where
  "mkdir_p ss (File _) = None"
| "mkdir_p [] (Dir es) = Some (Dir es)"
| "mkdir_p (s # ss) (Dir es) =
     (case mkdir_p ss (case map_of es s of None \<Rightarrow> Dir [] | Some c \<Rightarrow> c) of
        None \<Rightarrow> None
      | Some c' \<Rightarrow> Some (Dir (AList.update s c' es)))"

text \<open>Putting a node under a name of an existing directory.\<close>

fun put :: "string list \<Rightarrow> node \<Rightarrow> node \<Rightarrow> node option" where
  "put ss new (File _) = None"
| "put [] new (Dir es) = None"
| "put [s] new (Dir es) = Some (Dir (AList.update s new es))"
| "put (s # ss) new (Dir es) =
     (case map_of es s of
        None \<Rightarrow> None
      | Some c \<Rightarrow> (case put ss new c of None \<Rightarrow> None | Some c' \<Rightarrow> Some (Dir (AList.update s c' es))))"

text \<open>\<^verbatim>\<open>rm\<close> with \<^verbatim>\<open>recursive: true, force: true\<close>: a missing path is no error.\<close>

fun rm_rf :: "string list \<Rightarrow> node \<Rightarrow> node" where
  "rm_rf ss (File c) = File c"
| "rm_rf [] (Dir es) = Dir es"
| "rm_rf [s] (Dir es) = Dir (AList.delete s es)"
| "rm_rf (s # ss) (Dir es) =
     (case map_of es s of None \<Rightarrow> Dir es | Some c \<Rightarrow> Dir (AList.update s (rm_rf ss c) es))"

subsection \<open>The environment of a request\<close>

record env =
  os_tmpdir :: string
  mkdtemp_suffix :: string
  process_cwd :: string
  open_fails :: "string \<Rightarrow> bool"
  readFile_fails :: "string \<Rightarrow> bool"
  rm_fails :: bool
  localeCompare :: "string \<Rightarrow> string \<Rightarrow> int"

definition fs_path :: "env \<Rightarrow> string \<Rightarrow> string list" where
  "fs_path env p = segments (path_resolve (process_cwd env) p)"

definition fs_mkdir_recursive :: "env \<Rightarrow> string \<Rightarrow> node \<Rightarrow> node option" where
  "fs_mkdir_recursive env p fs = mkdir_p (fs_path env p) fs"

text \<open>\<^verbatim>\<open>writeFile\<close> creates or replaces a file; a directory, or a path that ends in a
  separator, is an error.\<close>

definition fs_writeFile :: "env \<Rightarrow> string \<Rightarrow> string \<Rightarrow> node \<Rightarrow> node option" where
  "fs_writeFile env p data fs =
     (if p \<noteq> [] \<and> last p = CHR ''/'' then None
      else (case lookup fs (fs_path env p) of
              Some (Dir _) \<Rightarrow> None
            | _ \<Rightarrow> put (fs_path env p) (File data) fs))"

text \<open>
  \<^verbatim>\<open>mkdtemp(prefix)\<close> creates the directory \<open>prefix\<close> followed by the characters it picks,
  here \<open>mkdtemp_suffix\<close>, and returns its path. It fails when the directory above does not
  exist. It picks a name that is not taken: a taken name is a failure of the model.
\<close>

definition fs_mkdtemp :: "env \<Rightarrow> string \<Rightarrow> node \<Rightarrow> (string \<times> node) option" where
  "fs_mkdtemp env pre fs =
     (let tempDir = pre @ mkdtemp_suffix env
      in case lookup fs (fs_path env tempDir) of
           Some _ \<Rightarrow> None
         | None \<Rightarrow> (case put (fs_path env tempDir) (Dir []) fs of
                      None \<Rightarrow> None
                    | Some fs' \<Rightarrow> Some (tempDir, fs')))"

definition fs_rm :: "env \<Rightarrow> string \<Rightarrow> node \<Rightarrow> node" where
  "fs_rm env p fs = (if rm_fails env then fs else rm_rf (fs_path env p) fs)"

text \<open>\<^verbatim>\<open>open\<close> and \<^verbatim>\<open>read\<close> of at most \<open>n\<close> bytes from position 0.\<close>

definition fs_read_prefix :: "env \<Rightarrow> node \<Rightarrow> string \<Rightarrow> nat \<Rightarrow> string option" where
  "fs_read_prefix env fs p n =
     (if open_fails env p then None
      else (case lookup fs (fs_path env p) of
              Some (File content) \<Rightarrow> Some (take n content)
            | _ \<Rightarrow> None))"

definition fs_readFile :: "env \<Rightarrow> node \<Rightarrow> string \<Rightarrow> string option" where
  "fs_readFile env fs p =
     (if readFile_fails env p then None
      else (case lookup fs (fs_path env p) of
              Some (File content) \<Rightarrow> Some content
            | _ \<Rightarrow> None))"

subsection \<open>The archive\<close>

text \<open>
  An uploaded file has a size and bytes; \<^verbatim>\<open>new AdmZip(buffer).getEntries()\<close> either
  throws or gives the entries of the archive. \<^verbatim>\<open>getData\<close> of an entry gives its bytes or
  throws. Reading the bytes of the upload into a buffer is taken not to fail.
\<close>

record zip_entry =
  entryName :: string
  isDirectory :: bool
  getData :: "string option"

record archive =
  archive_size :: nat
  getEntries :: "zip_entry list option"

datatype error =
  EmptyArchive | ArchiveTooLarge | NoFiles | UnsafePath | NoExtensionsSelected | InternalFault

definition TEMP_PREFIX :: string where
  "TEMP_PREFIX = ''loc-counter-''"

definition MAX_ARCHIVE_BYTES :: nat where
  "MAX_ARCHIVE_BYTES = 200 * 1024 * 1024"

definition BINARY_SNIFF_LENGTH :: nat where
  "BINARY_SNIFF_LENGTH = 2048"

definition TOP_FILE_LIMIT :: nat where
  "TOP_FILE_LIMIT = 200"

subsection \<open>withExtractedArchive\<close>

text \<open>The body of the loop over the entries; \<open>InternalFault\<close> is any error that is not an
  \<^verbatim>\<open>ArchiveError\<close>.\<close>

definition extractEntry :: "env \<Rightarrow> string \<Rightarrow> zip_entry \<Rightarrow> node \<Rightarrow> (error + unit) \<times> node" where
  "extractEntry env tempDir entry fs =
     (let normalized = path_normalize (entryName entry)
      in if normalized = [] \<or> normalized = ''.'' \<or> prefix ''..'' normalized
            \<or> path_isAbsolute normalized
         then (Inl UnsafePath, fs)
         else
           let outputPath = path_join [tempDir, normalized]
           in if \<not> prefix tempDir outputPath then (Inl UnsafePath, fs)
              else if isDirectory entry then
                (case fs_mkdir_recursive env outputPath fs of
                   None \<Rightarrow> (Inl InternalFault, fs)
                 | Some fs' \<Rightarrow> (Inr (), fs'))
              else
                (case fs_mkdir_recursive env (path_dirname outputPath) fs of
                   None \<Rightarrow> (Inl InternalFault, fs)
                 | Some fs' \<Rightarrow>
                     (case getData entry of
                        None \<Rightarrow> (Inl InternalFault, fs')
                      | Some data \<Rightarrow>
                          (case fs_writeFile env outputPath data fs' of
                             None \<Rightarrow> (Inl InternalFault, fs')
                           | Some fs'' \<Rightarrow> (Inr (), fs'')))))"

fun extractEntries :: "env \<Rightarrow> string \<Rightarrow> zip_entry list \<Rightarrow> node \<Rightarrow> (error + unit) \<times> node" where
  "extractEntries env tempDir [] fs = (Inr (), fs)"
| "extractEntries env tempDir (entry # entries) fs =
     (case extractEntry env tempDir entry fs of
        (Inl e, fs') \<Rightarrow> (Inl e, fs')
      | (Inr _, fs') \<Rightarrow> extractEntries env tempDir entries fs')"

text \<open>The \<^verbatim>\<open>try\<close> block.\<close>

definition extractAndHandle ::
  "env \<Rightarrow> archive \<Rightarrow> (string \<Rightarrow> node \<Rightarrow> error + 'a) \<Rightarrow> string \<Rightarrow> node \<Rightarrow> (error + 'a) \<times> node" where
  "extractAndHandle env archive handler tempDir fs =
     (case getEntries archive of
        None \<Rightarrow> (Inl InternalFault, fs)
      | Some entries \<Rightarrow>
          if length entries = 0 then (Inl NoFiles, fs)
          else (case extractEntries env tempDir entries fs of
                  (Inl e, fs') \<Rightarrow> (Inl e, fs')
                | (Inr _, fs') \<Rightarrow> (handler tempDir fs', fs')))"

text \<open>The function returns its result or error and the file system it leaves; the
  \<^verbatim>\<open>finally\<close> block removes the directory and ignores a failure of the removal.\<close>

definition withExtractedArchive ::
  "env \<Rightarrow> archive \<Rightarrow> (string \<Rightarrow> node \<Rightarrow> error + 'a) \<Rightarrow> node \<Rightarrow> (error + 'a) \<times> node" where
  "withExtractedArchive env archive handler fs =
     (if archive_size archive = 0 then (Inl EmptyArchive, fs)
      else if archive_size archive > MAX_ARCHIVE_BYTES then (Inl ArchiveTooLarge, fs)
      else (case fs_mkdtemp env (path_join [os_tmpdir env, TEMP_PREFIX]) fs of
              None \<Rightarrow> (Inl InternalFault, fs)
            | Some (tempDir, fs1) \<Rightarrow>
                (let (r, fs2) = extractAndHandle env archive handler tempDir fs1
                 in (r, fs_rm env tempDir fs2))))"

subsection \<open>collectFiles\<close>

text \<open>
  The queue holds the paths of the directories still to be read, each with the node it
  names; \<^verbatim>\<open>readdir\<close> gives the entries of that node, and fails on a file. \<^verbatim>\<open>pop\<close> takes
  the last element of the queue. An entry is a directory or a file: the extraction makes
  nothing else, and the code skips anything else.
\<close>

fun weight :: "node \<Rightarrow> nat" where
  "weight (File _) = 1"
| "weight (Dir es) = Suc (sum_list (map (\<lambda>e. weight (snd e)) es))"

definition visit ::
  "string \<Rightarrow> (string \<times> node) list \<times> string list \<Rightarrow> string \<times> node
     \<Rightarrow> (string \<times> node) list \<times> string list" where
  "visit current st entry =
     (let entryPath = path_join [current, fst entry]
      in case snd entry of
           Dir _ \<Rightarrow> (fst st @ [(entryPath, snd entry)], snd st)
         | File _ \<Rightarrow> (fst st, snd st @ [entryPath]))"

lemma weight_visit:
  "sum_list (map (\<lambda>q. weight (snd q)) (fst (foldl (visit current) st es)))
     \<le> sum_list (map (\<lambda>q. weight (snd q)) (fst st)) + sum_list (map (\<lambda>e. weight (snd e)) es)"
proof (induction es arbitrary: st)
  case Nil
  show ?case by simp
next
  case (Cons e es)
  have "sum_list (map (\<lambda>q. weight (snd q)) (fst (visit current st e)))
          \<le> sum_list (map (\<lambda>q. weight (snd q)) (fst st)) + weight (snd e)"
    by (cases "snd e") (simp_all add: visit_def Let_def)
  with Cons.IH [of "visit current st e"] show ?case by simp
qed

function collectLoop :: "(string \<times> node) list \<Rightarrow> string list \<Rightarrow> error + string list" where
  "collectLoop queue files =
     (if queue = [] then Inr files
      else (case snd (last queue) of
              File _ \<Rightarrow> Inl InternalFault
            | Dir entries \<Rightarrow>
                collectLoop (fst (foldl (visit (fst (last queue))) (butlast queue, files) entries))
                            (snd (foldl (visit (fst (last queue))) (butlast queue, files) entries))))"
  by pat_completeness auto
termination
proof (relation "measure (\<lambda>p. sum_list (map (\<lambda>q. weight (snd q)) (fst p)))")
  show "wf (measure (\<lambda>p. sum_list (map (\<lambda>q. weight (snd q)) (fst p))))"
    by simp
next
  fix queue :: "(string \<times> node) list" and files :: "string list" and entries
  assume ne: "queue \<noteq> []" and d: "snd (last queue) = Dir entries"
  have "sum_list (map (\<lambda>q. weight (snd q)) queue)
          = sum_list (map (\<lambda>q. weight (snd q)) (butlast queue)) + weight (snd (last queue))"
    using ne by (induction queue) auto
  with d weight_visit [of "fst (last queue)" "(butlast queue, files)" entries]
  show "((fst (foldl (visit (fst (last queue))) (butlast queue, files) entries),
          snd (foldl (visit (fst (last queue))) (butlast queue, files) entries)),
         (queue, files))
        \<in> measure (\<lambda>p. sum_list (map (\<lambda>q. weight (snd q)) (fst p)))"
    by simp
qed

declare collectLoop.simps [simp del]

definition collectFiles :: "env \<Rightarrow> node \<Rightarrow> string \<Rightarrow> error + string list" where
  "collectFiles env fs root =
     (case lookup fs (fs_path env root) of
        None \<Rightarrow> Inl InternalFault
      | Some n \<Rightarrow> collectLoop [(root, n)] [])"

subsection \<open>isBinaryFile and countLinesInFile\<close>

text \<open>
  \<^verbatim>\<open>isBinaryFile\<close> reads up to 2048 bytes from the start of the file and looks for a zero
  byte; any exception gives \<^verbatim>\<open>true\<close>. \<^verbatim>\<open>countLinesInFile\<close> reads the file as text; the
  text is represented by the bytes, since decoding UTF-8 gives the empty string exactly for
  no bytes and a line feed exactly for each byte \<^verbatim>\<open>0x0A\<close>.
\<close>

definition isBinaryFile :: "env \<Rightarrow> node \<Rightarrow> string \<Rightarrow> bool" where
  "isBinaryFile env fs filePath =
     (case fs_read_prefix env fs filePath BINARY_SNIFF_LENGTH of
        None \<Rightarrow> True
      | Some buffer \<Rightarrow> CHR 0x00 \<in> set buffer)"

text \<open>\<^verbatim>\<open>content.match(/\n/g)\<close> is the list of the matches, or \<^verbatim>\<open>null\<close> when there is none.\<close>

definition match_newlines :: "string \<Rightarrow> string list option" where
  "match_newlines content =
     (let ms = map (\<lambda>c. [c]) (filter (\<lambda>c. c = CHR 0x0A) content)
      in if ms = [] then None else Some ms)"

definition countLinesInFile :: "env \<Rightarrow> node \<Rightarrow> string \<Rightarrow> nat" where
  "countLinesInFile env fs filePath =
     (case fs_readFile env fs filePath of
        None \<Rightarrow> 0
      | Some content \<Rightarrow>
          if length content = 0 then 0
          else (case match_newlines content of None \<Rightarrow> 0 | Some segs \<Rightarrow> length segs) + 1)"

subsection \<open>Array.prototype.sort, Set, Map and Object.fromEntries\<close>

text \<open>
  \<^verbatim>\<open>sort\<close> is stable: an element goes before the first element of the sorted rest that
  the comparator does not put before it.
\<close>

fun insort_cmp :: "('a \<Rightarrow> 'a \<Rightarrow> int) \<Rightarrow> 'a \<Rightarrow> 'a list \<Rightarrow> 'a list" where
  "insort_cmp cmp x [] = [x]"
| "insort_cmp cmp x (y # ys) = (if cmp x y \<le> 0 then x # y # ys else y # insort_cmp cmp x ys)"

definition js_sort :: "('a \<Rightarrow> 'a \<Rightarrow> int) \<Rightarrow> 'a list \<Rightarrow> 'a list" where
  "js_sort cmp xs = foldr (insort_cmp cmp) xs []"

text \<open>
  A \<^verbatim>\<open>Set\<close> and a \<^verbatim>\<open>Map\<close> keep their elements and keys in the order of insertion, and
  so does the object that \<^verbatim>\<open>Object.fromEntries\<close> makes, for keys that are not array
  indices: the keys here are extensions, which are empty or begin with a dot.
\<close>

definition Set_add :: "'a \<Rightarrow> 'a list \<Rightarrow> 'a list" where
  "Set_add x xs = (if x \<in> set xs then xs else xs @ [x])"

definition Map_get_or :: "('k \<times> 'v) list \<Rightarrow> 'k \<Rightarrow> 'v \<Rightarrow> 'v" where
  "Map_get_or m k d = (case map_of m k of None \<Rightarrow> d | Some v \<Rightarrow> v)"

definition Object_fromEntries :: "(string \<times> 'v) list \<Rightarrow> (string \<times> 'v) list" where
  "Object_fromEntries es = foldl (\<lambda>obj e. AList.update (fst e) (snd e) obj) [] es"

subsection \<open>scanExtensionsFromArchive\<close>

fun scanLoop :: "env \<Rightarrow> node \<Rightarrow> string list \<Rightarrow> string list \<Rightarrow> string list" where
  "scanLoop env fs [] extensions = extensions"
| "scanLoop env fs (filePath # files) extensions =
     (let ext = toLowerCase (path_extname filePath)
      in if ext = [] then scanLoop env fs files extensions
         else if isBinaryFile env fs filePath then scanLoop env fs files extensions
         else scanLoop env fs files (Set_add ext extensions))"

definition scanHandler :: "env \<Rightarrow> string \<Rightarrow> node \<Rightarrow> error + string list" where
  "scanHandler env root fs =
     (case collectFiles env fs root of
        Inl e \<Rightarrow> Inl e
      | Inr files \<Rightarrow> Inr (js_sort (localeCompare env) (scanLoop env fs files [])))"

definition scanExtensionsFromArchive :: "env \<Rightarrow> archive \<Rightarrow> node \<Rightarrow> (error + string list) \<times> node" where
  "scanExtensionsFromArchive env archive fs = withExtractedArchive env archive (scanHandler env) fs"

subsection \<open>countLinesFromArchive\<close>

record file_lines =
  path :: string
  lines :: nat

record CountLinesResult =
  total_files :: nat
  total_lines :: nat
  line_counts_by_ext :: "(string \<times> nat) list"
  file_counts_by_ext :: "(string \<times> nat) list"
  top_files :: "file_lines list"

record count_state =
  lineCountsByExt :: "(string \<times> nat) list"
  fileCountsByExt :: "(string \<times> nat) list"
  topFiles :: "file_lines list"
  totalLines :: nat
  totalFiles :: nat

text \<open>The path reported for a file: \<^verbatim>\<open>path.relative(root, filePath) || path.basename(filePath)\<close>.\<close>

definition reportedPath :: "(string \<Rightarrow> string \<Rightarrow> string) \<Rightarrow> (string \<Rightarrow> string) \<Rightarrow> string \<Rightarrow> string \<Rightarrow> string" where
  "reportedPath relative basename root filePath =
     (let r = relative root filePath in if r = [] then basename filePath else r)"

fun countLoop :: "env \<Rightarrow> node \<Rightarrow> string \<Rightarrow> string list \<Rightarrow> string list \<Rightarrow> count_state \<Rightarrow> count_state" where
  "countLoop env fs root allowed [] st = st"
| "countLoop env fs root allowed (filePath # files) st =
     (let ext = toLowerCase (path_extname filePath)
      in if ext \<notin> set allowed then countLoop env fs root allowed files st
         else if isBinaryFile env fs filePath then countLoop env fs root allowed files st
         else
           let lns = countLinesInFile env fs filePath
           in countLoop env fs root allowed files
                \<lparr> lineCountsByExt =
                    AList.update ext (Map_get_or (lineCountsByExt st) ext 0 + lns) (lineCountsByExt st),
                  fileCountsByExt =
                    AList.update ext (Map_get_or (fileCountsByExt st) ext 0 + 1) (fileCountsByExt st),
                  topFiles = topFiles st @
                    [\<lparr> path = reportedPath (path_relative (process_cwd env)) path_basename root filePath,
                       lines = lns \<rparr>],
                  totalLines = totalLines st + lns,
                  totalFiles = totalFiles st + 1 \<rparr>)"

definition countHandler :: "env \<Rightarrow> string list \<Rightarrow> string \<Rightarrow> node \<Rightarrow> error + CountLinesResult" where
  "countHandler env allowed root fs =
     (case collectFiles env fs root of
        Inl e \<Rightarrow> Inl e
      | Inr files \<Rightarrow>
          (let st = countLoop env fs root allowed files
                      \<lparr> lineCountsByExt = [], fileCountsByExt = [], topFiles = [],
                        totalLines = 0, totalFiles = 0 \<rparr>
           in Inr \<lparr> total_files = totalFiles st,
                    total_lines = totalLines st,
                    line_counts_by_ext = Object_fromEntries
                      (js_sort (\<lambda>a b. int (snd b) - int (snd a)) (lineCountsByExt st)),
                    file_counts_by_ext = Object_fromEntries
                      (js_sort (\<lambda>a b. int (snd b) - int (snd a)) (fileCountsByExt st)),
                    top_files = take TOP_FILE_LIMIT
                      (js_sort (\<lambda>a b. int (lines b) - int (lines a)) (topFiles st)) \<rparr>))"

definition countLinesFromArchive ::
  "env \<Rightarrow> archive \<Rightarrow> string list \<Rightarrow> node \<Rightarrow> (error + CountLinesResult) \<times> node" where
  "countLinesFromArchive env archive selectedExtensions fs =
     (if length selectedExtensions = 0 then (Inl NoExtensionsSelected, fs)
      else (let allowed = map toLowerCase selectedExtensions
            in withExtractedArchive env archive (countHandler env allowed) fs))"

subsection \<open>The routes\<close>

text \<open>
  The two \<^verbatim>\<open>POST\<close> handlers answer with the result, or with an error message and a status.
  The message of an \<^verbatim>\<open>ArchiveError\<close> is sent with status 400, any other exception gives
  status 500. The count route turns the values of the field \<^verbatim>\<open>extensions\<close> into lower
  case. A form without a file in the field \<^verbatim>\<open>archive\<close> is \<open>None\<close>.
\<close>

datatype 'a response = Json 'a | JsonError string nat

definition message :: "error \<Rightarrow> string" where
  "message e =
     (case e of
        EmptyArchive \<Rightarrow> ''Uploaded archive is empty.''
      | ArchiveTooLarge \<Rightarrow> ''Archive exceeds the 200MB limit.''
      | NoFiles \<Rightarrow> ''Archive does not contain any files.''
      | UnsafePath \<Rightarrow> ''Archive contains unsafe paths.''
      | NoExtensionsSelected \<Rightarrow> ''At least one extension must be selected.''
      | InternalFault \<Rightarrow> [])"

definition respond :: "string \<Rightarrow> (error + 'a) \<Rightarrow> 'a response" where
  "respond failed r =
     (case r of
        Inr result \<Rightarrow> Json result
      | Inl InternalFault \<Rightarrow> JsonError failed 500
      | Inl e \<Rightarrow> JsonError (message e) 400)"

definition POST_scan_extensions :: "env \<Rightarrow> archive option \<Rightarrow> node \<Rightarrow> string list response \<times> node" where
  "POST_scan_extensions env archive fs =
     (case archive of
        None \<Rightarrow> (JsonError ''Archive file is required.'' 400, fs)
      | Some a \<Rightarrow>
          (let (r, fs') = scanExtensionsFromArchive env a fs
           in (respond ''Failed to scan extensions.'' r, fs')))"


section \<open>Which errors the parts can raise\<close>











section \<open>A request, for the examples\<close>

text \<open>A collation for the examples: the order of the code units.\<close>

fun compare_code_units :: "string \<Rightarrow> string \<Rightarrow> int" where
  "compare_code_units [] [] = 0"
| "compare_code_units [] (y # ys) = - 1"
| "compare_code_units (x # xs) [] = 1"
| "compare_code_units (x # xs) (y # ys) =
     (if (of_char x :: nat) < of_char y then - 1
      else if (of_char y :: nat) < of_char x then 1
      else compare_code_units xs ys)"

definition example_env :: env where
  "example_env =
     \<lparr> os_tmpdir = ''/tmp'', mkdtemp_suffix = ''a1B2c3'', process_cwd = ''/srv/app'',
       open_fails = (\<lambda>p. False), readFile_fails = (\<lambda>p. False), rm_fails = False,
       localeCompare = compare_code_units \<rparr>"

definition example_fs :: node where
  "example_fs = Dir [(''tmp'', Dir []), (''srv'', Dir [(''app'', Dir [])])]"

definition example_archive :: archive where
  "example_archive =
     \<lparr> archive_size = 100,
       getEntries = Some
         [\<lparr> entryName = ''src/'', isDirectory = True, getData = Some [] \<rparr>,
          \<lparr> entryName = ''src/a.PY'', isDirectory = False,
            getData = Some [CHR ''x'', CHR 0x0A, CHR ''y'', CHR 0x0A, CHR ''z''] \<rparr>,
          \<lparr> entryName = ''notes.TXT'', isDirectory = False, getData = Some [CHR ''h'', CHR 0x0A] \<rparr>,
          \<lparr> entryName = ''empty.py'', isDirectory = False, getData = Some [] \<rparr>,
          \<lparr> entryName = ''b.bin'', isDirectory = False, getData = Some [CHR 0x00, CHR 0x01] \<rparr>] \<rparr>"

definition example_workspace :: node where
  "example_workspace =
     Dir [(''tmp'', Dir [(''loc-counter-a1B2c3'',
             Dir [(''src'', Dir [(''a.PY'', File [CHR ''x'', CHR 0x0A, CHR ''y'', CHR 0x0A, CHR ''z''])]),
                  (''notes.TXT'', File [CHR ''h'', CHR 0x0A]),
                  (''empty.py'', File []),
                  (''b.bin'', File [CHR 0x00, CHR 0x01])])]),
          (''srv'', Dir [(''app'', Dir [])])]"

lemmas weak_congs =
  if_weak_cong option.case_cong_weak sum.case_cong_weak prod.case_cong_weak
  list.case_cong_weak node.case_cong_weak

lemmas path_defs =
  path_normalize_def normalizeString_def normSegs_def normStep_def path_join_def
  path_isAbsolute_def path_dirname_def path_basename_def path_extname_def path_resolve_def
  segments_def path_relative_def toLowerCase_def lower_char_def

lemmas fs_defs =
  fs_path_def fs_mkdir_recursive_def fs_writeFile_def fs_mkdtemp_def fs_rm_def
  fs_read_prefix_def fs_readFile_def

lemmas extract_defs =
  withExtractedArchive_def extractAndHandle_def extractEntry_def TEMP_PREFIX_def
  MAX_ARCHIVE_BYTES_def

lemmas handler_defs =
  collectFiles_def collectLoop.simps visit_def isBinaryFile_def countLinesInFile_def
  match_newlines_def BINARY_SNIFF_LENGTH_def TOP_FILE_LIMIT_def js_sort_def Set_add_def
  Map_get_or_def Object_fromEntries_def scanHandler_def scanExtensionsFromArchive_def
  reportedPath_def countHandler_def countLinesFromArchive_def


section \<open>The checks before extraction\<close>

text \<open>
  C5: an archive of size 0 is refused as empty and one of more than 200 MiB as too large,
  whatever else holds of it, before a directory is made or the archive is opened (the file
  system is left as it was); an archive within the limit that has no entries is refused
  as having no files, once its temporary directory is made.
\<close>

theorem withExtractedArchive_size_and_entry_checks:
  "(archive_size archive = 0
      \<longrightarrow> withExtractedArchive env archive handler fs = (Inl EmptyArchive, fs))
   \<and> (archive_size archive > 200 * 1024 * 1024
      \<longrightarrow> withExtractedArchive env archive handler fs = (Inl ArchiveTooLarge, fs))
   \<and> (0 < archive_size archive \<and> archive_size archive \<le> 200 * 1024 * 1024
        \<and> getEntries archive = Some []
        \<and> fs_mkdtemp env (path_join [os_tmpdir env, TEMP_PREFIX]) fs \<noteq> None
      \<longrightarrow> fst (withExtractedArchive env archive handler fs) = Inl NoFiles)"
  by (auto simp: withExtractedArchive_def extractAndHandle_def MAX_ARCHIVE_BYTES_def Let_def
      split: option.splits)

theorem withExtractedArchive_size_and_entry_checks_witness:
  "withExtractedArchive example_env (example_archive\<lparr>archive_size := 0\<rparr>)
       (\<lambda>root fs. Inr root) example_fs = (Inl EmptyArchive, example_fs)
   \<and> withExtractedArchive example_env (example_archive\<lparr>archive_size := 209715201\<rparr>)
       (\<lambda>root fs. Inr root) example_fs = (Inl ArchiveTooLarge, example_fs)
   \<and> fst (withExtractedArchive example_env (example_archive\<lparr>getEntries := Some []\<rparr>)
       (\<lambda>root fs. Inr root) example_fs) = Inl NoFiles"
proof -
  have t: "fs_mkdtemp example_env (path_join [os_tmpdir example_env, TEMP_PREFIX]) example_fs \<noteq> None"
    by (simp add: example_env_def example_fs_def path_defs fs_defs TEMP_PREFIX_def Let_def
        cong: weak_congs)
  show ?thesis
    using t
      withExtractedArchive_size_and_entry_checks
        [of "example_archive\<lparr>archive_size := 0\<rparr>" example_env "\<lambda>root fs. Inr root" example_fs]
      withExtractedArchive_size_and_entry_checks
        [of "example_archive\<lparr>archive_size := 209715201\<rparr>" example_env "\<lambda>root fs. Inr root" example_fs]
      withExtractedArchive_size_and_entry_checks
        [of "example_archive\<lparr>getEntries := Some []\<rparr>" example_env "\<lambda>root fs. Inr root" example_fs]
    by (simp add: example_archive_def)
qed

section \<open>Removal of the temporary directory\<close>

lemma lookup_rm_rf: "ss \<noteq> [] \<Longrightarrow> lookup (rm_rf ss n) ss = None"
proof (induction ss n rule: rm_rf.induct)
  case (1 ss c)
  then show ?case by (cases ss) simp_all
next
  case (2 es)
  then show ?case by simp
next
  case (3 s es)
  then show ?case by (simp add: delete_conv')
next
  case (4 s t ss es)
  then show ?case by (cases "map_of es s") (simp_all add: update_conv')
qed

lemma fs_mkdtemp_path:
  assumes "fs_mkdtemp env pre fs = Some (tempDir, fs1)"
  shows "tempDir = pre @ mkdtemp_suffix env" and "fs_path env tempDir \<noteq> []"
proof -
  from assms show t: "tempDir = pre @ mkdtemp_suffix env"
    by (auto simp: fs_mkdtemp_def Let_def split: option.splits)
  from assms t show "fs_path env tempDir \<noteq> []"
    by (auto simp: fs_mkdtemp_def Let_def split: option.splits)
qed

lemma fs_path_rm_fails: "fs_path (env\<lparr>rm_fails := b\<rparr>) p = fs_path env p"
  by (simp add: fs_path_def)

lemma fs_mkdir_recursive_rm_fails:
  "fs_mkdir_recursive (env\<lparr>rm_fails := b\<rparr>) p fs = fs_mkdir_recursive env p fs"
  by (simp add: fs_mkdir_recursive_def fs_path_rm_fails)

lemma fs_writeFile_rm_fails:
  "fs_writeFile (env\<lparr>rm_fails := b\<rparr>) p data fs = fs_writeFile env p data fs"
  unfolding fs_writeFile_def fs_path_rm_fails ..

lemma fs_mkdtemp_rm_fails: "fs_mkdtemp (env\<lparr>rm_fails := b\<rparr>) pre fs = fs_mkdtemp env pre fs"
  unfolding fs_mkdtemp_def fs_path_rm_fails by simp

lemma extractEntry_rm_fails:
  "extractEntry (env\<lparr>rm_fails := b\<rparr>) tempDir entry fs = extractEntry env tempDir entry fs"
  unfolding extractEntry_def fs_mkdir_recursive_rm_fails fs_writeFile_rm_fails ..

lemma extractEntries_rm_fails:
  "extractEntries (env\<lparr>rm_fails := b\<rparr>) tempDir entries fs = extractEntries env tempDir entries fs"
  by (induction entries arbitrary: fs) (simp_all add: extractEntry_rm_fails split: prod.splits sum.splits)

lemma extractAndHandle_rm_fails:
  "extractAndHandle (env\<lparr>rm_fails := b\<rparr>) archive handler tempDir fs
     = extractAndHandle env archive handler tempDir fs"
  unfolding extractAndHandle_def extractEntries_rm_fails ..

text \<open>
  C7: once the temporary directory is made, the result of the operation is the result of
  the \<^verbatim>\<open>try\<close> block, whatever it is (a value, an \<^verbatim>\<open>ArchiveError\<close> or another fault);
  a failing removal does not change it; and when the removal does not fail, the directory
  no longer exists afterwards.
\<close>

theorem withExtractedArchive_removes_workspace:
  "archive_size archive \<noteq> 0 \<and> archive_size archive \<le> MAX_ARCHIVE_BYTES
     \<and> fs_mkdtemp env (path_join [os_tmpdir env, TEMP_PREFIX]) fs = Some (tempDir, fs1)
   \<longrightarrow> fst (withExtractedArchive env archive handler fs)
         = fst (extractAndHandle env archive handler tempDir fs1)
       \<and> (\<forall>b. fst (withExtractedArchive (env\<lparr>rm_fails := b\<rparr>) archive handler fs)
                = fst (withExtractedArchive env archive handler fs))
       \<and> (\<not> rm_fails env
            \<longrightarrow> lookup (snd (withExtractedArchive env archive handler fs)) (fs_path env tempDir) = None)"
proof (intro impI, elim conjE)
  assume sz: "archive_size archive \<noteq> 0" "archive_size archive \<le> MAX_ARCHIVE_BYTES"
    and mk: "fs_mkdtemp env (path_join [os_tmpdir env, TEMP_PREFIX]) fs = Some (tempDir, fs1)"
  have r: "withExtractedArchive env archive handler fs
             = (fst (extractAndHandle env archive handler tempDir fs1),
                fs_rm env tempDir (snd (extractAndHandle env archive handler tempDir fs1)))"
    using sz mk by (simp add: withExtractedArchive_def case_prod_beta)
  have r': "fst (withExtractedArchive (env\<lparr>rm_fails := b\<rparr>) archive handler fs)
             = fst (extractAndHandle env archive handler tempDir fs1)" for b
    using sz mk
    by (simp add: withExtractedArchive_def case_prod_beta fs_mkdtemp_rm_fails
        extractAndHandle_rm_fails)
  have gone: "lookup (snd (withExtractedArchive env archive handler fs)) (fs_path env tempDir) = None"
    if "\<not> rm_fails env"
    using that fs_mkdtemp_path(2) [OF mk] by (simp add: r fs_rm_def lookup_rm_rf)
  from r r' gone
  show "fst (withExtractedArchive env archive handler fs)
         = fst (extractAndHandle env archive handler tempDir fs1)
       \<and> (\<forall>b. fst (withExtractedArchive (env\<lparr>rm_fails := b\<rparr>) archive handler fs)
                = fst (withExtractedArchive env archive handler fs))
       \<and> (\<not> rm_fails env
            \<longrightarrow> lookup (snd (withExtractedArchive env archive handler fs)) (fs_path env tempDir) = None)"
    by simp
qed


definition unsafe_archive :: archive where
  "unsafe_archive =
     \<lparr> archive_size = 100,
       getEntries = Some
         [\<lparr> entryName = ''ok.txt'', isDirectory = False, getData = Some ''ok'' \<rparr>,
          \<lparr> entryName = ''docs/../../evil.txt'', isDirectory = False, getData = Some ''x'' \<rparr>] \<rparr>"

lemma example_mkdtemp:
  "fs_mkdtemp example_env (path_join [os_tmpdir example_env, TEMP_PREFIX]) example_fs
     = Some (''/tmp/loc-counter-a1B2c3'',
             Dir [(''tmp'', Dir [(''loc-counter-a1B2c3'', Dir [])]),
                  (''srv'', Dir [(''app'', Dir [])])])"
  by (simp add: example_env_def example_fs_def path_defs fs_defs TEMP_PREFIX_def Let_def
      cong: weak_congs)

lemma example_tempDir_path:
  "fs_path example_env ''/tmp/loc-counter-a1B2c3'' = [''tmp'', ''loc-counter-a1B2c3'']"
  by (simp add: example_env_def path_defs fs_defs Let_def cong: weak_congs)

lemma unsafe_extraction:
  "fst (extractAndHandle example_env unsafe_archive handler ''/tmp/loc-counter-a1B2c3''
         (Dir [(''tmp'', Dir [(''loc-counter-a1B2c3'', Dir [])]),
               (''srv'', Dir [(''app'', Dir [])])])) = Inl UnsafePath"
  by (simp add: example_env_def unsafe_archive_def path_defs fs_defs extract_defs Let_def
      cong: weak_congs)

theorem withExtractedArchive_removes_workspace_witness:
  "fst (withExtractedArchive example_env unsafe_archive (\<lambda>root fs. Inr root) example_fs)
     = Inl UnsafePath
   \<and> fst (withExtractedArchive (example_env\<lparr>rm_fails := True\<rparr>) unsafe_archive
            (\<lambda>root fs. Inr root) example_fs) = Inl UnsafePath
   \<and> lookup (snd (withExtractedArchive example_env unsafe_archive (\<lambda>root fs. Inr root) example_fs))
        [''tmp'', ''loc-counter-a1B2c3''] = None"
proof -
  have sz: "archive_size unsafe_archive \<noteq> 0" "archive_size unsafe_archive \<le> MAX_ARCHIVE_BYTES"
    by (simp_all add: unsafe_archive_def MAX_ARCHIVE_BYTES_def)
  have ok: "\<not> rm_fails example_env"
    by (simp add: example_env_def)
  show ?thesis
    using sz ok example_mkdtemp example_tempDir_path unsafe_extraction [of "\<lambda>root fs. Inr root"]
      withExtractedArchive_removes_workspace
        [where archive = unsafe_archive and env = example_env and fs = example_fs
           and handler = "\<lambda>root fs. Inr root" and tempDir = "''/tmp/loc-counter-a1B2c3''"
           and ?fs1.0 = "Dir [(''tmp'', Dir [(''loc-counter-a1B2c3'', Dir [])]),
                            (''srv'', Dir [(''app'', Dir [])])]"]
    by simp
qed

section \<open>The selected extensions\<close>






section \<open>Sorting\<close>

lemma mset_insort_cmp: "mset (insort_cmp cmp x xs) = add_mset x (mset xs)"
  by (induction xs) auto

lemma mset_js_sort: "mset (js_sort cmp xs) = mset xs"
  by (induction xs) (simp_all add: js_sort_def mset_insort_cmp)


lemma length_js_sort: "length (js_sort cmp xs) = length xs"
  using mset_js_sort [of cmp xs] by (metis size_mset)


lemma sum_list_js_sort:
  "sum_list (map f (js_sort cmp xs)) = (sum_list (map f xs) :: nat)"
proof -
  have "mset (map f (js_sort cmp xs)) = mset (map f xs)"
    by (simp add: mset_js_sort)
  then have "sum_mset (mset (map f (js_sort cmp xs))) = sum_mset (mset (map f xs))"
    by simp
  then show ?thesis by (simp only: sum_mset_sum_list)
qed

lemma map_fst_js_sort_distinct:
  "distinct (map fst (js_sort cmp xs)) = distinct (map fst xs)"
proof -
  have "mset (map fst (js_sort cmp xs)) = mset (map fst xs)"
    by (simp add: mset_js_sort)
  then show ?thesis by (rule mset_eq_imp_distinct_iff)
qed






section \<open>Maps and objects\<close>

lemma sum_update_get:
  "sum_list (map snd (AList.update k (Map_get_or m k 0 + n) m)) = sum_list (map snd m) + (n::nat)"
  by (induction m) (auto simp: Map_get_or_def)

lemma update_fresh: "k \<notin> fst ` set m \<Longrightarrow> AList.update k v m = m @ [(k, v)]"
  by (induction m) auto

lemma Object_fromEntries_acc:
  "distinct (map fst (acc @ es)) \<Longrightarrow>
   foldl (\<lambda>obj e. AList.update (fst e) (snd e) obj) acc es = acc @ es"
proof (induction es arbitrary: acc)
  case Nil
  then show ?case by simp
next
  case (Cons e es)
  from Cons.prems have "fst e \<notin> fst ` set acc" by auto
  then have "AList.update (fst e) (snd e) acc = acc @ [e]"
    by (simp add: update_fresh)
  with Cons.IH [of "acc @ [e]"] Cons.prems show ?case by simp
qed

lemma Object_fromEntries_distinct:
  "distinct (map fst es) \<Longrightarrow> Object_fromEntries es = es"
  using Object_fromEntries_acc [of "[]" es] by (simp add: Object_fromEntries_def)


section \<open>The handlers\<close>


text \<open>The files that the count includes, in the order of the walk, and the entry that the
  count records for a file.\<close>

definition included :: "env \<Rightarrow> node \<Rightarrow> string list \<Rightarrow> string list \<Rightarrow> string list" where
  "included env fs allowed files =
     filter (\<lambda>p. toLowerCase (path_extname p) \<in> set allowed \<and> \<not> isBinaryFile env fs p) files"

definition fileEntry :: "env \<Rightarrow> node \<Rightarrow> string \<Rightarrow> string \<Rightarrow> file_lines" where
  "fileEntry env fs root p =
     \<lparr> path = reportedPath (path_relative (process_cwd env)) path_basename root p,
       lines = countLinesInFile env fs p \<rparr>"

lemma countLoop_totalFiles:
  "totalFiles (countLoop env fs root allowed files st)
     = totalFiles st + length (included env fs allowed files)"
  by (induction files arbitrary: st) (simp_all add: Let_def included_def)

lemma countLoop_totalLines:
  "totalLines (countLoop env fs root allowed files st)
     = totalLines st + sum_list (map (countLinesInFile env fs) (included env fs allowed files))"
  by (induction files arbitrary: st) (simp_all add: Let_def included_def)

lemma countLoop_topFiles:
  "topFiles (countLoop env fs root allowed files st)
     = topFiles st @ map (fileEntry env fs root) (included env fs allowed files)"
  by (induction files arbitrary: st) (simp_all add: Let_def included_def fileEntry_def)

lemma countLoop_fileCounts:
  "sum_list (map snd (fileCountsByExt (countLoop env fs root allowed files st)))
     = sum_list (map snd (fileCountsByExt st)) + length (included env fs allowed files)"
proof (induction files arbitrary: st)
  case Nil
  show ?case by (simp add: included_def)
next
  case (Cons p files)
  show ?case
    using sum_update_get [of "toLowerCase (path_extname p)" "fileCountsByExt st" 1]
    by (simp add: Let_def included_def Cons.IH [unfolded included_def])
qed

lemma countLoop_lineCounts:
  "sum_list (map snd (lineCountsByExt (countLoop env fs root allowed files st)))
     = sum_list (map snd (lineCountsByExt st))
       + sum_list (map (countLinesInFile env fs) (included env fs allowed files))"
proof (induction files arbitrary: st)
  case Nil
  show ?case by (simp add: included_def)
next
  case (Cons p files)
  show ?case
    using sum_update_get [of "toLowerCase (path_extname p)" "lineCountsByExt st"
        "countLinesInFile env fs p"]
    by (simp add: Let_def included_def Cons.IH [unfolded included_def])
qed

lemma countLoop_distinct_keys:
  "distinct (map fst (fileCountsByExt st)) \<Longrightarrow> distinct (map fst (lineCountsByExt st)) \<Longrightarrow>
   distinct (map fst (fileCountsByExt (countLoop env fs root allowed files st)))
   \<and> distinct (map fst (lineCountsByExt (countLoop env fs root allowed files st)))"
  by (induction files arbitrary: st) (simp_all add: Let_def distinct_update)

lemma countHandler_result:
  assumes "countHandler env allowed root fs = Inr res"
  shows "\<exists>files. collectFiles env fs root = Inr files
           \<and> total_files res = length (included env fs allowed files)
           \<and> total_lines res = sum_list (map (countLinesInFile env fs) (included env fs allowed files))
           \<and> sum_list (map snd (file_counts_by_ext res)) = length (included env fs allowed files)
           \<and> sum_list (map snd (line_counts_by_ext res))
               = sum_list (map (countLinesInFile env fs) (included env fs allowed files))
           \<and> top_files res = take TOP_FILE_LIMIT
               (js_sort (\<lambda>a b. int (lines b) - int (lines a))
                  (map (fileEntry env fs root) (included env fs allowed files)))"
proof -
  define st0 where
    "st0 = \<lparr> lineCountsByExt = [], fileCountsByExt = [], topFiles = [],
             totalLines = 0, totalFiles = (0::nat) \<rparr>"
  from assms obtain files where files: "collectFiles env fs root = Inr files"
    by (auto simp: countHandler_def split: sum.splits)
  define st where "st = countLoop env fs root allowed files st0"
  from assms files have res:
    "res = \<lparr> total_files = totalFiles st, total_lines = totalLines st,
             line_counts_by_ext = Object_fromEntries
               (js_sort (\<lambda>a b. int (snd b) - int (snd a)) (lineCountsByExt st)),
             file_counts_by_ext = Object_fromEntries
               (js_sort (\<lambda>a b. int (snd b) - int (snd a)) (fileCountsByExt st)),
             top_files = take TOP_FILE_LIMIT
               (js_sort (\<lambda>a b. int (lines b) - int (lines a)) (topFiles st)) \<rparr>"
    by (simp add: countHandler_def Let_def st_def st0_def)
  have d: "distinct (map fst (fileCountsByExt st))" "distinct (map fst (lineCountsByExt st))"
    using countLoop_distinct_keys [of st0 env fs root allowed files]
    by (simp_all add: st_def st0_def)
  have fo: "file_counts_by_ext res = js_sort (\<lambda>a b. int (snd b) - int (snd a)) (fileCountsByExt st)"
    using d(1) by (simp add: res Object_fromEntries_distinct map_fst_js_sort_distinct)
  have lo: "line_counts_by_ext res = js_sort (\<lambda>a b. int (snd b) - int (snd a)) (lineCountsByExt st)"
    using d(2) by (simp add: res Object_fromEntries_distinct map_fst_js_sort_distinct)
  have "total_files res = length (included env fs allowed files)"
    by (simp add: res st_def countLoop_totalFiles st0_def)
  moreover have "total_lines res
      = sum_list (map (countLinesInFile env fs) (included env fs allowed files))"
    by (simp add: res st_def countLoop_totalLines st0_def)
  moreover have "sum_list (map snd (file_counts_by_ext res)) = length (included env fs allowed files)"
    by (simp add: fo sum_list_js_sort st_def countLoop_fileCounts st0_def)
  moreover have "sum_list (map snd (line_counts_by_ext res))
      = sum_list (map (countLinesInFile env fs) (included env fs allowed files))"
    by (simp add: lo sum_list_js_sort st_def countLoop_lineCounts st0_def)
  moreover have "top_files res = take TOP_FILE_LIMIT
      (js_sort (\<lambda>a b. int (lines b) - int (lines a))
         (map (fileEntry env fs root) (included env fs allowed files)))"
    by (simp add: res st_def countLoop_topFiles st0_def)
  ultimately show ?thesis using files by blast
qed



definition example_result :: CountLinesResult where
  "example_result =
     \<lparr> total_files = 3, total_lines = 5,
       line_counts_by_ext = [(''.py'', 3), (''.txt'', 2)],
       file_counts_by_ext = [(''.py'', 2), (''.txt'', 1)],
       top_files = [\<lparr> path = ''src/a.PY'', lines = 3 \<rparr>,
                    \<lparr> path = ''notes.TXT'', lines = 2 \<rparr>,
                    \<lparr> path = ''empty.py'', lines = 0 \<rparr>] \<rparr>"


section \<open>The line counter\<close>

lemma count_list_filter: "length (filter (\<lambda>c. c = x) xs) = count_list xs x"
  by (induction xs) auto

text \<open>
  C2: a file that cannot be read counts 0 lines, an empty file counts 0 lines, and any
  other file counts one more than the number of its line feed characters, whether or not
  it ends with one. A failed read does not fail the request: once the walk has listed the
  files, the count handler returns a result, whose total is the sum of these counts over
  the included files.
\<close>

theorem countLinesInFile_terminators_plus_one:
  "(fs_readFile env fs filePath = None \<longrightarrow> countLinesInFile env fs filePath = 0)
   \<and> (fs_readFile env fs filePath = Some [] \<longrightarrow> countLinesInFile env fs filePath = 0)
   \<and> (\<forall>content. fs_readFile env fs filePath = Some content \<and> content \<noteq> []
         \<longrightarrow> countLinesInFile env fs filePath = count_list content (CHR 0x0A) + 1)
   \<and> (\<forall>files. collectFiles env fs root = Inr files
         \<longrightarrow> (\<exists>res. countHandler env allowed root fs = Inr res
                \<and> total_lines res
                    = sum_list (map (countLinesInFile env fs) (included env fs allowed files))))"
proof -
  have nl: "(case match_newlines content of None \<Rightarrow> 0 | Some segs \<Rightarrow> length segs)
              = count_list content (CHR 0x0A)" for content
    using count_list_filter [of "CHR 0x0A" content] by (auto simp: match_newlines_def Let_def)
  have "countLinesInFile env fs filePath = count_list content (CHR 0x0A) + 1"
    if "fs_readFile env fs filePath = Some content" "content \<noteq> []" for content
    using that nl [of content] by (simp add: countLinesInFile_def)
  moreover have "\<exists>res. countHandler env allowed root fs = Inr res
      \<and> total_lines res
          = sum_list (map (countLinesInFile env fs) (included env fs allowed files))"
    if f: "collectFiles env fs root = Inr files" for files
  proof -
    from f obtain res where res: "countHandler env allowed root fs = Inr res"
      by (simp add: countHandler_def Let_def)
    from countHandler_result [OF res] f res show ?thesis by auto
  qed
  ultimately show ?thesis
    by (simp add: countLinesInFile_def)
qed

theorem countLinesInFile_terminators_plus_one_witness:
  "countLinesInFile example_env example_workspace ''/tmp/loc-counter-a1B2c3/src/a.PY'' = 3
   \<and> countLinesInFile example_env example_workspace ''/tmp/loc-counter-a1B2c3/empty.py'' = 0
   \<and> countLinesInFile (example_env\<lparr>readFile_fails := (\<lambda>p. True)\<rparr>) example_workspace
        ''/tmp/loc-counter-a1B2c3/src/a.PY'' = 0
   \<and> (\<exists>res. countHandler (example_env\<lparr>readFile_fails := (\<lambda>p. True)\<rparr>) [''.py'']
                ''/tmp/loc-counter-a1B2c3'' example_workspace = Inr res)"
proof -
  have a: "fs_readFile example_env example_workspace ''/tmp/loc-counter-a1B2c3/src/a.PY''
             = Some [CHR ''x'', CHR 0x0A, CHR ''y'', CHR 0x0A, CHR ''z'']"
    by (simp add: example_env_def example_workspace_def path_defs fs_defs Let_def cong: weak_congs)
  have b: "fs_readFile example_env example_workspace ''/tmp/loc-counter-a1B2c3/empty.py'' = Some []"
    by (simp add: example_env_def example_workspace_def path_defs fs_defs Let_def cong: weak_congs)
  have c: "fs_readFile (example_env\<lparr>readFile_fails := (\<lambda>p. True)\<rparr>) example_workspace
             ''/tmp/loc-counter-a1B2c3/src/a.PY'' = None"
    by (simp add: fs_readFile_def)
  have d: "collectFiles (example_env\<lparr>readFile_fails := (\<lambda>p. True)\<rparr>) example_workspace
             ''/tmp/loc-counter-a1B2c3''
           = Inr [''/tmp/loc-counter-a1B2c3/notes.TXT'', ''/tmp/loc-counter-a1B2c3/empty.py'',
                  ''/tmp/loc-counter-a1B2c3/b.bin'', ''/tmp/loc-counter-a1B2c3/src/a.PY'']"
    by (simp add: example_env_def example_workspace_def path_defs fs_defs collectFiles_def
        collectLoop.simps visit_def Let_def cong: weak_congs)
  have 1: "countLinesInFile example_env example_workspace ''/tmp/loc-counter-a1B2c3/src/a.PY'' = 3"
    using a countLinesInFile_terminators_plus_one
        [of example_env example_workspace "''/tmp/loc-counter-a1B2c3/src/a.PY''"]
    by simp
  have 2: "countLinesInFile example_env example_workspace ''/tmp/loc-counter-a1B2c3/empty.py'' = 0"
    using b countLinesInFile_terminators_plus_one
        [of example_env example_workspace "''/tmp/loc-counter-a1B2c3/empty.py''"]
    by simp
  have 3: "countLinesInFile (example_env\<lparr>readFile_fails := (\<lambda>p. True)\<rparr>) example_workspace
        ''/tmp/loc-counter-a1B2c3/src/a.PY'' = 0"
    and 4: "\<exists>res. countHandler (example_env\<lparr>readFile_fails := (\<lambda>p. True)\<rparr>) [''.py'']
                ''/tmp/loc-counter-a1B2c3'' example_workspace = Inr res"
    using c d countLinesInFile_terminators_plus_one
        [where env = "example_env\<lparr>readFile_fails := (\<lambda>p. True)\<rparr>" and fs = example_workspace
           and filePath = "''/tmp/loc-counter-a1B2c3/src/a.PY''"
           and root = "''/tmp/loc-counter-a1B2c3''" and allowed = "[''.py'']"]
    by blast+
  from 1 2 3 4 show ?thesis by blast
qed

section \<open>The totals of a count\<close>



section \<open>The largest files\<close>




section \<open>The scan\<close>










section \<open>Splitting and joining\<close>

lemma split_on_not_Nil: "split_on c s \<noteq> []"
  by (induction s) (auto split: list.splits)

lemma split_on_append: "split_on c (a @ c # b) = split_on c a @ split_on c b"
proof (induction a)
  case Nil
  show ?case by simp
next
  case (Cons x a)
  then show ?case
    using split_on_not_Nil [of c a] by (cases "split_on c a") auto
qed

lemma split_on_none: "c \<notin> set s \<Longrightarrow> split_on c s = [s]"
  by (induction s) auto

lemma split_on_free: "x \<in> set (split_on c s) \<Longrightarrow> c \<notin> set x"
  by (induction s arbitrary: x) (auto split: if_splits list.splits)

lemma join_with_Cons:
  "join_with sep (s # ss) = (if ss = [] then s else s @ sep @ join_with sep ss)"
  by (cases ss) simp_all

lemma split_on_join:
  "segs \<noteq> [] \<Longrightarrow> (\<And>s. s \<in> set segs \<Longrightarrow> c \<notin> set s) \<Longrightarrow>
   split_on c (join_with [c] segs) = segs"
proof (induction segs)
  case Nil
  then show ?case by simp
next
  case (Cons s segs)
  then show ?case
    by (cases "segs = []") (simp_all add: join_with_Cons split_on_append split_on_none)
qed

lemma join_with_append:
  "xs \<noteq> [] \<Longrightarrow> ys \<noteq> [] \<Longrightarrow> join_with sep (xs @ ys) = join_with sep xs @ sep @ join_with sep ys"
  by (induction xs) (auto simp: join_with_Cons)

lemma join_with_snoc_append:
  "join_with sep (xs @ [s]) @ t = join_with sep (xs @ [s @ t])"
  by (induction xs) (auto simp: join_with_Cons)

lemma join_with_Nil_iff:
  "(\<And>s. s \<in> set segs \<Longrightarrow> s \<noteq> []) \<Longrightarrow> join_with sep segs = [] \<longleftrightarrow> segs = []"
  by (cases segs) (auto simp: join_with_Cons)

lemma hd_join_with:
  "segs \<noteq> [] \<Longrightarrow> hd segs \<noteq> [] \<Longrightarrow> hd (join_with sep segs) = hd (hd segs)"
  by (cases segs) (auto simp: join_with_Cons)


lemma join_with_last_not_Nil:
  "segs \<noteq> [] \<Longrightarrow> last segs \<noteq> [] \<Longrightarrow> join_with sep segs \<noteq> []"
  by (induction segs) (auto simp: join_with_Cons)

lemma last_join_with:
  "segs \<noteq> [] \<Longrightarrow> last segs \<noteq> [] \<Longrightarrow> last (join_with sep segs) = last (last segs)"
proof (induction segs)
  case Nil
  then show ?case by simp
next
  case (Cons a segs)
  show ?case
  proof (cases "segs = []")
    case True
    then show ?thesis by simp
  next
    case False
    with Cons.prems have "join_with sep segs \<noteq> []"
      by (simp add: join_with_last_not_Nil)
    with False Cons show ?thesis by (simp add: join_with_Cons)
  qed
qed

section \<open>Normalized paths\<close>

text \<open>A segment that names an entry, and a list of segments as \<open>normalizeString\<close> leaves it:
  names, after parent segments when they are allowed.\<close>

definition plain :: "string \<Rightarrow> bool" where
  "plain s \<longleftrightarrow> s \<noteq> [] \<and> s \<noteq> ''.'' \<and> s \<noteq> ''..'' \<and> CHR ''/'' \<notin> set s"

definition normal :: "bool \<Rightarrow> string list \<Rightarrow> bool" where
  "normal allow segs \<longleftrightarrow>
     (\<exists>dots names. segs = dots @ names \<and> (\<forall>d\<in>set dots. d = ''..'')
        \<and> (\<forall>n\<in>set names. plain n) \<and> (dots \<noteq> [] \<longrightarrow> allow))"

lemma normal_Nil: "normal allow []"
  by (simp add: normal_def)


lemma normal_elem:
  assumes "normal allow segs" and "s \<in> set segs"
  shows "s \<noteq> [] \<and> CHR ''/'' \<notin> set s"
proof -
  from assms(1) obtain dots names where d: "segs = dots @ names" "\<forall>d\<in>set dots. d = ''..''"
    "\<forall>n\<in>set names. plain n"
    unfolding normal_def by blast
  from assms(2) d(1) consider "s \<in> set dots" | "s \<in> set names" by auto
  then show ?thesis
  proof cases
    case 1
    with d(2) have "s = ''..''" by simp
    then show ?thesis by simp
  next
    case 2
    with d(3) have "plain s" by simp
    then show ?thesis by (simp add: plain_def)
  qed
qed

lemma normal_snoc: "normal allow segs \<Longrightarrow> plain s \<Longrightarrow> normal allow (segs @ [s])"
proof -
  assume "normal allow segs" and s: "plain s"
  then obtain dots names where d: "segs = dots @ names" "\<forall>d\<in>set dots. d = ''..''"
    "\<forall>n\<in>set names. plain n" "dots \<noteq> [] \<longrightarrow> allow"
    unfolding normal_def by blast
  show ?thesis
    unfolding normal_def
    using d s by (intro exI [of _ dots] exI [of _ "names @ [s]"]) simp
qed

lemma normal_normStep:
  assumes n: "normal allow res" and f: "CHR ''/'' \<notin> set seg"
  shows "normal allow (normStep allow res seg)"
proof -
  from n obtain dots names where d: "res = dots @ names" "\<forall>d\<in>set dots. d = ''..''"
    "\<forall>n\<in>set names. plain n" "dots \<noteq> [] \<longrightarrow> allow"
    unfolding normal_def by blast
  consider (skip) "seg = [] \<or> seg = ''.''" | (up) "seg = ''..''" | (name) "plain seg"
    using f by (auto simp: plain_def)
  then show ?thesis
  proof cases
    case skip
    with n show ?thesis by (auto simp: normStep_def)
  next
    case name
    then have "normStep allow res seg = res @ [seg]"
      by (auto simp: normStep_def plain_def)
    with n name show ?thesis by (simp add: normal_snoc)
  next
    case up
    show ?thesis
    proof (cases "names = []")
      case True
      with d have all: "\<forall>x\<in>set res. x = ''..''" by simp
      then have "res \<noteq> [] \<Longrightarrow> last res = ''..''" by simp
      then have step: "normStep allow res seg = (if allow then res @ [''..''] else res)"
        using up by (auto simp: normStep_def)
      show ?thesis
      proof (cases allow)
        case True
        have "normal allow (res @ [''..''])"
          unfolding normal_def
          using all True by (intro exI [of _ "res @ [''..'']"] exI [of _ "[]"]) simp
        with step True show ?thesis by simp
      next
        case False
        with step n show ?thesis by simp
      qed
    next
      case False
      with d have "last res = last names" by simp
      moreover from False d have "plain (last names)" by simp
      ultimately have "last res \<noteq> ''..''" by (auto simp: plain_def)
      moreover from False d have "res \<noteq> []" by simp
      ultimately have step: "normStep allow res seg = butlast res"
        using up by (simp add: normStep_def)
      from False d have "butlast res = dots @ butlast names"
        by (simp add: butlast_append)
      moreover have "\<forall>n\<in>set (butlast names). plain n"
        using d by (auto dest: in_set_butlastD)
      ultimately have "normal allow (butlast res)"
        unfolding normal_def using d by blast
      with step show ?thesis by simp
    qed
  qed
qed

lemma normal_foldl:
  "normal allow res \<Longrightarrow> (\<And>s. s \<in> set segs \<Longrightarrow> CHR ''/'' \<notin> set s) \<Longrightarrow>
   normal allow (foldl (normStep allow) res segs)"
  by (induction segs arbitrary: res) (simp_all add: normal_normStep)

lemma normal_normSegs: "normal allow (normSegs allow (split_on CHR ''/'' p))"
  unfolding normSegs_def by (rule normal_foldl) (auto simp: normal_Nil dest: split_on_free)

lemma foldl_normStep_plain:
  "\<forall>n\<in>set names. plain n \<Longrightarrow> foldl (normStep allow) res names = res @ names"
  by (induction names arbitrary: res) (auto simp: normStep_def plain_def)

lemma foldl_normStep_dots:
  "\<forall>d\<in>set dots. d = ''..'' \<Longrightarrow> \<forall>d\<in>set res. d = ''..'' \<Longrightarrow> dots \<noteq> [] \<longrightarrow> allow \<Longrightarrow>
   foldl (normStep allow) res dots = res @ dots"
proof (induction dots arbitrary: res)
  case Nil
  show ?case by simp
next
  case (Cons d dots)
  then have "res \<noteq> [] \<Longrightarrow> last res = ''..''" by simp
  with Cons.prems have "normStep allow res d = res @ [d]"
    by (auto simp: normStep_def)
  with Cons.IH [of "res @ [d]"] Cons.prems show ?case by simp
qed

lemma foldl_normStep_normal:
  assumes "normal allow segs"
  shows "foldl (normStep allow) [] segs = segs"
proof -
  from assms obtain dots names where d: "segs = dots @ names" "\<forall>d\<in>set dots. d = ''..''"
    "\<forall>n\<in>set names. plain n" "dots \<noteq> [] \<longrightarrow> allow"
    unfolding normal_def by blast
  then show ?thesis
    by (simp add: foldl_normStep_dots foldl_normStep_plain)
qed

lemma path_normalize_segs:
  assumes "p \<noteq> []"
  shows "path_normalize p =
     (if normSegs (hd p \<noteq> CHR ''/'') (split_on CHR ''/'' p) = []
      then (if hd p = CHR ''/'' then ''/'' else if last p = CHR ''/'' then ''./'' else ''.'')
      else (if hd p = CHR ''/'' then ''/'' else [])
           @ join_with ''/'' (normSegs (hd p \<noteq> CHR ''/'') (split_on CHR ''/'' p))
           @ (if last p = CHR ''/'' then ''/'' else []))"
proof -
  have "join_with ''/'' (normSegs (hd p \<noteq> CHR ''/'') (split_on CHR ''/'' p)) = []
          \<longleftrightarrow> normSegs (hd p \<noteq> CHR ''/'') (split_on CHR ''/'' p) = []"
    by (rule join_with_Nil_iff) (auto dest: normal_elem [OF normal_normSegs])
  with assms show ?thesis
    by (simp add: path_normalize_def normalizeString_def Let_def)
qed


text \<open>What the first guard of the extraction lets through: names, with or without a
  separator at the end, or \<^verbatim>\<open>./\<close>.\<close>

lemma guard_form:
  assumes g: "path_normalize name \<noteq> ''.''" "\<not> prefix ''..'' (path_normalize name)"
    "\<not> path_isAbsolute (path_normalize name)"
  shows "\<exists>names. (\<forall>x\<in>set names. plain x)
           \<and> ((names = [] \<and> path_normalize name = ''./'')
              \<or> (names \<noteq> [] \<and> (path_normalize name = join_with ''/'' names
                                \<or> path_normalize name = join_with ''/'' names @ ''/'')))"
proof -
  from g(1) have ne: "name \<noteq> []"
    by (auto simp: path_normalize_def)
  define segs where "segs = normSegs (hd name \<noteq> CHR ''/'') (split_on CHR ''/'' name)"
  have n: "normal (hd name \<noteq> CHR ''/'') segs"
    unfolding segs_def by (rule normal_normSegs)
  note eq = path_normalize_segs [OF ne, folded segs_def]
  have rel: "hd name \<noteq> CHR ''/''"
  proof
    assume "hd name = CHR ''/''"
    with eq have "path_isAbsolute (path_normalize name)"
      by (simp add: path_isAbsolute_def split: if_splits)
    with g(3) show False by simp
  qed
  show ?thesis
  proof (cases "segs = []")
    case True
    with eq rel g(1) have "path_normalize name = ''./''"
      by (simp split: if_splits)
    then show ?thesis by (intro exI [of _ "[]"]) simp
  next
    case False
    from n obtain dots names where d: "segs = dots @ names" "\<forall>d\<in>set dots. d = ''..''"
      "\<forall>n\<in>set names. plain n"
      unfolding normal_def by blast
    have "dots = []"
    proof (rule ccontr)
      assume "dots \<noteq> []"
      then obtain ds where "dots = ''..'' # ds"
        using d(2) by (cases dots) auto
      with d(1) have "prefix ''..'' (join_with ''/'' segs)"
        by (simp add: join_with_Cons)
      with eq rel False have "prefix ''..'' (path_normalize name)"
        by (auto simp: prefix_def)
      with g(2) show False by simp
    qed
    with d False have "\<forall>x\<in>set segs. plain x" "segs \<noteq> []" by simp_all
    moreover from eq rel False
    have "path_normalize name = join_with ''/'' segs
          \<or> path_normalize name = join_with ''/'' segs @ ''/''"
      by simp
    ultimately show ?thesis by blast
  qed
qed

text \<open>The path of the temporary directory: a root or nothing, then normalized segments,
  the last of which is the prefix followed by what \<^verbatim>\<open>mkdtemp\<close> appends.\<close>

lemma tempDir_form:
  assumes "CHR ''/'' \<notin> set sfx"
  shows "\<exists>rooted tsegs. path_join [tmp, TEMP_PREFIX] @ sfx
             = (if rooted then ''/'' else []) @ join_with ''/'' tsegs
           \<and> tsegs \<noteq> [] \<and> normal (\<not> rooted) tsegs"
proof -
  define j where "j = (if tmp = [] then TEMP_PREFIX else tmp @ ''/'' @ TEMP_PREFIX)"
  have pj: "path_join [tmp, TEMP_PREFIX] = path_normalize j"
    by (simp add: path_join_def j_def TEMP_PREFIX_def)
  have ne: "j \<noteq> []" and l: "last j \<noteq> CHR ''/''"
    by (simp_all add: j_def TEMP_PREFIX_def)
  have pl: "plain TEMP_PREFIX" "plain (TEMP_PREFIX @ sfx)"
    using assms by (simp_all add: plain_def TEMP_PREFIX_def)
  define allow where "allow = (hd j \<noteq> CHR ''/'')"
  define R where "R = (if tmp = [] then [] else normSegs allow (split_on CHR ''/'' tmp))"
  have R: "normal allow R"
    by (simp add: R_def normal_Nil normal_normSegs)
  have sp: "split_on CHR ''/'' j = (if tmp = [] then [] else split_on CHR ''/'' tmp) @ [TEMP_PREFIX]"
    using pl(1) by (simp add: j_def split_on_append split_on_none plain_def)
  have segs: "normSegs allow (split_on CHR ''/'' j) = R @ [TEMP_PREFIX]"
    using pl(1) by (auto simp: sp normSegs_def R_def normStep_def plain_def)
  have "path_normalize j = (if hd j = CHR ''/'' then ''/'' else []) @ join_with ''/'' (R @ [TEMP_PREFIX])"
    using path_normalize_segs [OF ne] l segs by (simp add: allow_def)
  then have "path_join [tmp, TEMP_PREFIX] @ sfx
      = (if hd j = CHR ''/'' then ''/'' else []) @ join_with ''/'' (R @ [TEMP_PREFIX @ sfx])"
    by (simp add: pj join_with_snoc_append)
  moreover have "normal (\<not> hd j = CHR ''/'') (R @ [TEMP_PREFIX @ sfx])"
    using R pl(2) by (simp add: allow_def normal_snoc)
  ultimately show ?thesis
    by (intro exI [of _ "hd j = CHR ''/''"] exI [of _ "R @ [TEMP_PREFIX @ sfx]"]) simp
qed

text \<open>Joining such a directory with a path that the first guard lets through appends the
  path, and nothing for \<^verbatim>\<open>./\<close>.\<close>

lemma join_under_root:
  assumes root: "root = (if rooted then ''/'' else []) @ join_with ''/'' tsegs" "tsegs \<noteq> []"
      "normal (\<not> rooted) tsegs"
    and names: "\<forall>x\<in>set names. plain x"
    and n: "(names = [] \<and> n = ''./'')
            \<or> (names \<noteq> [] \<and> (n = join_with ''/'' names \<or> n = join_with ''/'' names @ ''/''))"
  shows "path_join [root, n] = root @ ''/'' @ (if n = ''./'' then [] else n)"
proof -
  have tne: "\<And>s. s \<in> set tsegs \<Longrightarrow> s \<noteq> [] \<and> CHR ''/'' \<notin> set s"
    using normal_elem [OF root(3)] by blast
  have nne: "\<And>s. s \<in> set names \<Longrightarrow> s \<noteq> [] \<and> CHR ''/'' \<notin> set s"
    using names by (auto simp: plain_def)
  have jt: "join_with ''/'' tsegs \<noteq> []"
    using join_with_Nil_iff [of tsegs "''/''"] tne root(2) by blast
  have jn: "names \<noteq> [] \<Longrightarrow> join_with ''/'' names \<noteq> []"
    using join_with_Nil_iff [of names "''/''"] nne by blast
  have rne: "root \<noteq> []" using jt root(1) by simp
  have nne': "n \<noteq> []" using n jn by auto
  define s where "s = root @ ''/'' @ n"
  have pj: "path_join [root, n] = path_normalize s"
    using rne nne' by (simp add: path_join_def s_def)
  have sne: "s \<noteq> []" by (simp add: s_def)
  have hd_t: "hd (join_with ''/'' tsegs) \<noteq> CHR ''/''"
  proof -
    have "hd (join_with ''/'' tsegs) = hd (hd tsegs)"
      using root(2) tne by (intro hd_join_with) (auto simp: hd_in_set)
    moreover have "hd (hd tsegs) \<in> set (hd tsegs)" "CHR ''/'' \<notin> set (hd tsegs)"
      using root(2) tne [of "hd tsegs"] by (simp_all add: hd_in_set)
    ultimately show ?thesis by metis
  qed
  have hd_s: "hd s = CHR ''/'' \<longleftrightarrow> rooted"
    using hd_t jt by (simp add: s_def root(1))
  have last_s: "last s = last n"
    using nne' by (simp add: s_def)
  have sp_root: "split_on CHR ''/'' root = (if rooted then [[]] else []) @ tsegs"
    using split_on_join [of tsegs "CHR ''/''"] root(2) tne by (simp add: root(1))
  have sp: "split_on CHR ''/'' s = (if rooted then [[]] else []) @ tsegs @ split_on CHR ''/'' n"
    using split_on_append [of "CHR ''/''" root n] by (simp add: s_def sp_root)
  have f_root: "foldl (normStep (\<not> rooted)) [] ((if rooted then [[]] else []) @ tsegs) = tsegs"
    using foldl_normStep_normal [OF root(3)] by (cases rooted) (simp_all add: normStep_def)
  have f_n: "foldl (normStep (\<not> rooted)) tsegs (split_on CHR ''/'' n) = tsegs @ names"
  proof -
    from n consider (dot) "names = []" "n = ''./''"
      | (bare) "names \<noteq> []" "n = join_with ''/'' names"
      | (slash) "names \<noteq> []" "n = join_with ''/'' names @ ''/''"
      by blast
    then show ?thesis
    proof cases
      case dot
      then show ?thesis by (simp add: normStep_def)
    next
      case bare
      then have "split_on CHR ''/'' n = names"
        using split_on_join [of names "CHR ''/''"] nne by simp
      then show ?thesis by (simp add: foldl_normStep_plain names)
    next
      case slash
      then have "split_on CHR ''/'' n = names @ [[]]"
        using split_on_join [of names "CHR ''/''"] nne
          split_on_append [of "CHR ''/''" "join_with ''/'' names" "[]"]
        by simp
      then show ?thesis by (simp add: foldl_normStep_plain names normStep_def)
    qed
  qed
  have segs: "normSegs (\<not> rooted) (split_on CHR ''/'' s) = tsegs @ names"
    using f_root f_n by (simp add: normSegs_def sp)
  have res: "path_normalize s
      = (if rooted then ''/'' else []) @ join_with ''/'' (tsegs @ names)
        @ (if last n = CHR ''/'' then ''/'' else [])"
    using path_normalize_segs [OF sne] root(2) unfolding hd_s segs last_s by simp
  from n consider (dot) "names = []" "n = ''./''"
    | (bare) "names \<noteq> []" "n = join_with ''/'' names"
    | (slash) "names \<noteq> []" "n = join_with ''/'' names @ ''/''"
    by blast
  then show ?thesis
  proof cases
    case dot
    then have "path_normalize s = root @ ''/''"
      by (simp add: res root(1))
    with dot(2) show ?thesis unfolding pj by simp
  next
    case bare
    have "last (join_with ''/'' names) = last (last names)"
      using bare(1) nne by (intro last_join_with) simp_all
    moreover have "last (last names) \<in> set (last names)" "CHR ''/'' \<notin> set (last names)"
      using bare(1) nne [of "last names"] by simp_all
    ultimately have "last n \<noteq> CHR ''/''"
      using bare(2) by metis
    moreover have "n \<noteq> ''./''"
      using \<open>last n \<noteq> CHR ''/''\<close> by auto
    ultimately have "path_normalize s = root @ ''/'' @ n" "n \<noteq> ''./''"
      using bare root(2) by (simp_all add: res root(1) join_with_append)
    then show ?thesis unfolding pj by simp
  next
    case slash
    then have "last n = CHR ''/''" by simp
    moreover have "n \<noteq> ''./''"
    proof
      assume "n = ''./''"
      with slash(2) have "join_with ''/'' names = ''.''" by simp
      with split_on_join [of names "CHR ''/''"] slash(1) nne have "names = [''.'']"
        by simp
      with names show False by (simp add: plain_def)
    qed
    ultimately have "path_normalize s = root @ ''/'' @ n" "n \<noteq> ''./''"
      using slash root(2) by (simp_all add: res root(1) join_with_append)
    then show ?thesis unfolding pj by simp
  qed
qed


section \<open>The path guards of the extraction\<close>

lemma outputPath_under_tempDir:
  assumes sfx: "CHR ''/'' \<notin> set sfx"
    and t: "tempDir = path_join [tmp, TEMP_PREFIX] @ sfx"
    and g: "path_normalize name \<noteq> ''.''" "\<not> prefix ''..'' (path_normalize name)"
      "\<not> path_isAbsolute (path_normalize name)"
  shows "path_join [tempDir, path_normalize name]
           = tempDir @ ''/'' @ (if path_normalize name = ''./'' then [] else path_normalize name)"
proof -
  from tempDir_form [OF sfx, of tmp] t obtain rooted tsegs
    where r: "tempDir = (if rooted then ''/'' else []) @ join_with ''/'' tsegs"
      "tsegs \<noteq> []" "normal (\<not> rooted) tsegs"
    by auto
  from guard_form [OF g] obtain names
    where n: "\<forall>x\<in>set names. plain x"
      "(names = [] \<and> path_normalize name = ''./'')
       \<or> (names \<noteq> [] \<and> (path_normalize name = join_with ''/'' names
                         \<or> path_normalize name = join_with ''/'' names @ ''/''))"
    by blast
  from r n show ?thesis by (rule join_under_root)
qed

text \<open>The first guard, as the code writes it, and the two guards together.\<close>

definition unsafe_path :: "string \<Rightarrow> bool" where
  "unsafe_path normalized \<longleftrightarrow>
     normalized = [] \<or> normalized = ''.'' \<or> prefix ''..'' normalized \<or> path_isAbsolute normalized"

definition rejected :: "string \<Rightarrow> zip_entry \<Rightarrow> bool" where
  "rejected tempDir entry \<longleftrightarrow>
     unsafe_path (path_normalize (entryName entry))
     \<or> \<not> prefix tempDir (path_join [tempDir, path_normalize (entryName entry)])"

lemma extractEntry_UnsafePath:
  "fst (extractEntry env tempDir entry fs) = Inl UnsafePath \<longleftrightarrow> rejected tempDir entry"
  by (auto simp: extractEntry_def rejected_def unsafe_path_def Let_def split: option.splits)






definition example_fs1 :: node where
  "example_fs1 =
     Dir [(''tmp'', Dir [(''loc-counter-a1B2c3'', Dir [])]), (''srv'', Dir [(''app'', Dir [])])]"

text \<open>
  C10: for the directory that \<^verbatim>\<open>mkdtemp\<close> makes (the joined prefix followed by characters
  other than the separator), an entry that passes the first guard has an output path that
  starts with the directory, so its extraction does not fail with the error of an unsafe
  path: the second check never fires.
\<close>

theorem second_path_check_unreachable:
  "CHR ''/'' \<notin> set (mkdtemp_suffix env)
   \<and> tempDir = path_join [os_tmpdir env, TEMP_PREFIX] @ mkdtemp_suffix env
   \<and> \<not> (path_normalize (entryName entry) = [] \<or> path_normalize (entryName entry) = ''.''
          \<or> prefix ''..'' (path_normalize (entryName entry))
          \<or> path_isAbsolute (path_normalize (entryName entry)))
   \<longrightarrow> prefix tempDir (path_join [tempDir, path_normalize (entryName entry)])
       \<and> fst (extractEntry env tempDir entry fs) \<noteq> Inl UnsafePath"
proof (intro impI, elim conjE)
  assume sfx: "CHR ''/'' \<notin> set (mkdtemp_suffix env)"
    and t: "tempDir = path_join [os_tmpdir env, TEMP_PREFIX] @ mkdtemp_suffix env"
    and g: "\<not> (path_normalize (entryName entry) = [] \<or> path_normalize (entryName entry) = ''.''
          \<or> prefix ''..'' (path_normalize (entryName entry))
          \<or> path_isAbsolute (path_normalize (entryName entry)))"
  from g have g': "path_normalize (entryName entry) \<noteq> ''.''"
    "\<not> prefix ''..'' (path_normalize (entryName entry))"
    "\<not> path_isAbsolute (path_normalize (entryName entry))"
    by simp_all
  from outputPath_under_tempDir [OF sfx t g']
  have p: "prefix tempDir (path_join [tempDir, path_normalize (entryName entry)])"
    by simp
  with g have "\<not> rejected tempDir entry"
    by (simp add: rejected_def unsafe_path_def)
  with p show "prefix tempDir (path_join [tempDir, path_normalize (entryName entry)])
       \<and> fst (extractEntry env tempDir entry fs) \<noteq> Inl UnsafePath"
    by (simp add: extractEntry_UnsafePath)
qed

theorem second_path_check_unreachable_witness:
  "prefix ''/tmp/loc-counter-a1B2c3''
     (path_join [''/tmp/loc-counter-a1B2c3'', path_normalize ''docs/./a/../notes.txt''])
   \<and> fst (extractEntry example_env ''/tmp/loc-counter-a1B2c3''
            \<lparr> entryName = ''docs/./a/../notes.txt'', isDirectory = False, getData = Some ''n'' \<rparr>
            example_fs1) \<noteq> Inl UnsafePath"
proof -
  have n: "path_normalize ''docs/./a/../notes.txt'' = ''docs/notes.txt''"
    by (simp add: path_defs Let_def cong: weak_congs)
  have t: "''/tmp/loc-counter-a1B2c3''
             = path_join [os_tmpdir example_env, TEMP_PREFIX] @ mkdtemp_suffix example_env"
    by (simp add: example_env_def TEMP_PREFIX_def path_defs Let_def cong: weak_congs)
  have s: "CHR ''/'' \<notin> set (mkdtemp_suffix example_env)"
    by (simp add: example_env_def)
  have g: "\<not> (''docs/notes.txt'' = [] \<or> ''docs/notes.txt'' = ''.''
             \<or> prefix ''..'' ''docs/notes.txt'' \<or> path_isAbsolute ''docs/notes.txt'')"
    by (simp add: path_isAbsolute_def)
  show ?thesis
    using s t g
      second_path_check_unreachable
        [where env = example_env and tempDir = "''/tmp/loc-counter-a1B2c3''"
           and fs = example_fs1
           and entry = "\<lparr> entryName = ''docs/./a/../notes.txt'', isDirectory = False,
                            getData = Some ''n'' \<rparr>"]
    by (simp add: n)
qed







section \<open>The paths of the walk\<close>












section \<open>The reported paths\<close>









lemma example_handler_result:
  "countHandler example_env [''.py'', ''.txt''] ''/tmp/loc-counter-a1B2c3'' example_workspace
     = Inr example_result"
  by (simp add: example_env_def example_workspace_def example_result_def path_defs fs_defs
      handler_defs Let_def cong: weak_congs)

section \<open>The extraction keeps the names plain\<close>
















section \<open>The reported path on a Windows host\<close>









end
